theory Spec2Isabelle
  imports Complex_Main
begin

section \<open>JavaScript values read by the component\<close>

text \<open>
  The component \<^verbatim>\<open>CoworkerForceTimeGraph.tsx\<close> reads loosely typed rows (\<^verbatim>\<open>any\<close>),
  coerces their numeric cells with \<^verbatim>\<open>toNum\<close> and then only compares, adds and prints
  the numbers. A JavaScript number is modelled as a finite value or one of the three
  non-finite values. Finite values are mathematical integers: ids, days and weights as
  the data format has them. Rounding of fractional doubles and the sign of zero are
  outside this model. Positions of simulated nodes are reals.
\<close>

datatype number = Fin int | NaN | PosInf | NegInf

text \<open>A cell of a parsed row: absent (\<^verbatim>\<open>undefined\<close>), a number, or a string.\<close>

datatype jsval = JUndefined | JNum number | JStr string

text \<open>
  The unary plus of \<^verbatim>\<open>const n = +x\<close>: \<^verbatim>\<open>undefined\<close> reads as \<^verbatim>\<open>NaN\<close> and the empty
  string as 0. Reading any other string as a numeric literal is the language's own
  algorithm; it is the parameter \<open>s2n\<close>.
\<close>

definition ToNumber :: "(string \<Rightarrow> number) \<Rightarrow> jsval \<Rightarrow> number" where
  "ToNumber s2n v =
     (case v of
        JUndefined \<Rightarrow> NaN
      | JNum n \<Rightarrow> n
      | JStr s \<Rightarrow> if s = [] then Fin 0 else s2n s)"

definition isFinite :: "number \<Rightarrow> bool" where
  "isFinite n = (case n of Fin i \<Rightarrow> True | _ \<Rightarrow> False)"

text \<open>
  \<^verbatim>\<open>function toNum(x) { const n = +x; return Number.isFinite(n) ? n : undefined }\<close>
  The result \<open>None\<close> is \<^verbatim>\<open>undefined\<close>.
\<close>

definition toNum :: "(string \<Rightarrow> number) \<Rightarrow> jsval \<Rightarrow> int option" where
  "toNum s2n x =
     (let n = ToNumber s2n x
      in if isFinite n then (case n of Fin i \<Rightarrow> Some i | _ \<Rightarrow> None) else None)"

subsection \<open>Arithmetic and comparison on numbers\<close>

fun num_add :: "number \<Rightarrow> number \<Rightarrow> number" where
  "num_add (Fin a) (Fin b) = Fin (a + b)"
| "num_add NaN _ = NaN"
| "num_add _ NaN = NaN"
| "num_add PosInf NegInf = NaN"
| "num_add NegInf PosInf = NaN"
| "num_add PosInf _ = PosInf"
| "num_add _ PosInf = PosInf"
| "num_add NegInf _ = NegInf"
| "num_add _ NegInf = NegInf"

text \<open>\<^verbatim>\<open>a < b\<close>: false as soon as one side is \<^verbatim>\<open>NaN\<close>.\<close>

fun num_lt :: "number \<Rightarrow> number \<Rightarrow> bool" where
  "num_lt (Fin a) (Fin b) = (a < b)"
| "num_lt NaN _ = False"
| "num_lt _ NaN = False"
| "num_lt PosInf _ = False"
| "num_lt _ PosInf = True"
| "num_lt NegInf NegInf = False"
| "num_lt NegInf _ = True"
| "num_lt _ NegInf = False"

text \<open>\<^verbatim>\<open>a === b\<close> on numbers: \<^verbatim>\<open>NaN\<close> equals nothing.\<close>

definition num_eq :: "number \<Rightarrow> number \<Rightarrow> bool" where
  "num_eq a b = (a \<noteq> NaN \<and> b \<noteq> NaN \<and> a = b)"

definition num_le :: "number \<Rightarrow> number \<Rightarrow> bool" where
  "num_le a b = (num_lt a b \<or> num_eq a b)"

text \<open>\<^verbatim>\<open>Math.max(a, b)\<close>.\<close>

definition num_max :: "number \<Rightarrow> number \<Rightarrow> number" where
  "num_max a b = (if a = NaN \<or> b = NaN then NaN else if num_lt a b then b else a)"

text \<open>\<^verbatim>\<open>a || b\<close> on a number that may be \<^verbatim>\<open>undefined\<close>: 0 and \<^verbatim>\<open>NaN\<close> are falsy.\<close>

definition num_or :: "number option \<Rightarrow> number \<Rightarrow> number" where
  "num_or a b = (case a of None \<Rightarrow> b | Some n \<Rightarrow> if n = Fin 0 \<or> n = NaN then b else n)"

text \<open>The same on a finite number that may be \<^verbatim>\<open>undefined\<close>.\<close>

definition int_or :: "int option \<Rightarrow> int \<Rightarrow> int" where
  "int_or a b = (case a of None \<Rightarrow> b | Some n \<Rightarrow> if n = 0 then b else n)"

subsection \<open>Numbers as text\<close>

definition digit_char :: "nat \<Rightarrow> char" where
  "digit_char d = ''0123456789'' ! d"

function nat_to_string :: "nat \<Rightarrow> string" where
  "nat_to_string n =
     (if n < 10 then [digit_char n]
      else nat_to_string (n div 10) @ [digit_char (n mod 10)])"
  by pat_completeness auto
termination
  by (relation "measure (\<lambda>n. n)") auto

declare nat_to_string.simps [simp del]

definition int_to_string :: "int \<Rightarrow> string" where
  "int_to_string i =
     (if i < 0 then CHR ''-'' # nat_to_string (nat (- i)) else nat_to_string (nat i))"

text \<open>\<^verbatim>\<open>Number.prototype.toString\<close>, on the values of the model.\<close>

fun number_to_string :: "number \<Rightarrow> string" where
  "number_to_string (Fin i) = int_to_string i"
| "number_to_string NaN = ''NaN''"
| "number_to_string PosInf = ''Infinity''"
| "number_to_string NegInf = ''-Infinity''"

text \<open>A template hole \<^verbatim>\<open>${a}\<close> for an id that may be \<^verbatim>\<open>undefined\<close>.\<close>

definition template :: "int option \<Rightarrow> string" where
  "template a = (case a of None \<Rightarrow> ''undefined'' | Some i \<Rightarrow> int_to_string i)"

text \<open>\<^verbatim>\<open>s.padStart(n, c)\<close> for a one-character filler.\<close>

definition padStart :: "nat \<Rightarrow> char \<Rightarrow> string \<Rightarrow> string" where
  "padStart n c s = replicate (n - length s) c @ s"

subsection \<open>Dates\<close>

text \<open>
  A \<^verbatim>\<open>Date\<close> is invalid or a point in time. The component reads a date only through
  \<^verbatim>\<open>getFullYear\<close>, \<^verbatim>\<open>getMonth\<close> and \<^verbatim>\<open>getDate\<close>, so a valid date is given by
  these three local-time fields: the year, the month index from 0 and the day of the
  month. On an invalid date every getter returns \<^verbatim>\<open>NaN\<close>.
\<close>

datatype Date = InvalidDate | LocalDate int int int

fun getFullYear :: "Date \<Rightarrow> number" where
  "getFullYear InvalidDate = NaN"
| "getFullYear (LocalDate y m d) = Fin y"

fun getMonth :: "Date \<Rightarrow> number" where
  "getMonth InvalidDate = NaN"
| "getMonth (LocalDate y m d) = Fin m"

fun getDate :: "Date \<Rightarrow> number" where
  "getDate InvalidDate = NaN"
| "getDate (LocalDate y m d) = Fin d"

text \<open>
  \<^verbatim>\<open>function fmtMonth(d) { const y = d.getFullYear();
     const m = (d.getMonth() + 1).toString().padStart(2, '0'); return `${y}-${m}` }\<close>
\<close>

definition fmtMonth :: "Date \<Rightarrow> string" where
  "fmtMonth d =
     (let y = getFullYear d;
          m = padStart 2 CHR ''0'' (number_to_string (num_add (getMonth d) (Fin 1)))
      in number_to_string y @ ''-'' @ m)"

section \<open>Records of the component\<close>

text \<open>
  Rows as the CSV parser or the demo generator deliver them: one cell per column.
\<close>

record RawNode =
  raw_id :: jsval
  raw_name :: jsval
  raw_role :: jsval
  raw_team :: jsval
  raw_location :: jsval
  raw_email :: jsval

record RawEdge =
  raw_event_id :: jsval
  raw_source :: jsval
  raw_target :: jsval
  raw_timestamp :: jsval
  raw_event_type :: jsval
  raw_duration_minutes :: jsval
  raw_project :: jsval
  raw_weight :: jsval
  raw_note :: jsval

text \<open>
  \<^verbatim>\<open>NodeRec\<close>. The type says \<^verbatim>\<open>id: number\<close>, but the value is \<^verbatim>\<open>toNum(d.id)!\<close>, which is
  \<^verbatim>\<open>undefined\<close> at run time when the cell is not a finite number: the field is an
  option. The optional \<^verbatim>\<open>x, y, vx, vy\<close> are \<open>pos_x, pos_y, vel_x, vel_y\<close>.
\<close>

record NodeRec =
  node_id :: "int option"
  name :: jsval
  role :: jsval
  team :: jsval
  location :: jsval
  email :: jsval
  degree :: int
  pos_x :: "real option"
  pos_y :: "real option"
  vel_x :: "real option"
  vel_y :: "real option"

text \<open>\<^verbatim>\<open>EdgeEvent\<close>; the field \<^verbatim>\<open>note\<close> is \<open>note_text\<close>.\<close>

record EdgeEvent =
  event_id :: "int option"
  source :: "int option"
  target :: "int option"
  timestamp :: Date
  event_type :: jsval
  duration_minutes :: "int option"
  project :: jsval
  weight :: "int option"
  note_text :: jsval

text \<open>\<^verbatim>\<open>LinkAgg\<close>; its \<^verbatim>\<open>source\<close> and \<^verbatim>\<open>target\<close> are \<open>link_source\<close> and \<open>link_target\<close>.\<close>

record LinkAgg =
  link_source :: "int option"
  link_target :: "int option"
  total :: int
  events :: "EdgeEvent list"

text \<open>The value of the \<^verbatim>\<open>parsed\<close> memo and of the \<^verbatim>\<open>graph\<close> memo.\<close>

record Parsed =
  nodes :: "NodeRec list"
  edges :: "EdgeEvent list"
  days :: number

record Graph =
  graph_nodes :: "NodeRec list"
  graph_links :: "LinkAgg list"

section \<open>Normalisation and the month filter\<close>

text \<open>\<^verbatim>\<open>d.note || ''\<close>: a falsy cell becomes the empty string.\<close>

definition or_empty :: "jsval \<Rightarrow> jsval" where
  "or_empty v =
     (case v of
        JUndefined \<Rightarrow> JStr []
      | JNum n \<Rightarrow> if n = Fin 0 \<or> n = NaN then JStr [] else v
      | JStr s \<Rightarrow> if s = [] then JStr [] else v)"

definition normNode :: "(string \<Rightarrow> number) \<Rightarrow> RawNode \<Rightarrow> NodeRec" where
  "normNode s2n d =
     \<lparr>node_id = toNum s2n (raw_id d), name = raw_name d, role = raw_role d,
      team = raw_team d, location = raw_location d, email = raw_email d, degree = 0,
      pos_x = None, pos_y = None, vel_x = None, vel_y = None\<rparr>"

text \<open>\<^verbatim>\<open>new Date(d.timestamp)\<close> is the parameter \<open>newDate\<close>.\<close>

definition normEdge :: "(string \<Rightarrow> number) \<Rightarrow> (jsval \<Rightarrow> Date) \<Rightarrow> RawEdge \<Rightarrow> EdgeEvent" where
  "normEdge s2n newDate d =
     \<lparr>event_id = toNum s2n (raw_event_id d), source = toNum s2n (raw_source d),
      target = toNum s2n (raw_target d), timestamp = newDate (raw_timestamp d),
      event_type = raw_event_type d,
      duration_minutes = toNum s2n (raw_duration_minutes d), project = raw_project d,
      weight = toNum s2n (raw_weight d), note_text = or_empty (raw_note d)\<rparr>"

text \<open>
  \<^verbatim>\<open>d3.extent\<close> of d3-array on numbers: the first value that compares with itself starts
  both ends, every later value moves an end it exceeds; no such value gives
  \<^verbatim>\<open>[undefined, undefined]\<close>, here \<open>None\<close>.
\<close>

fun extent_step :: "(number \<times> number) option \<Rightarrow> number \<Rightarrow> (number \<times> number) option" where
  "extent_step None v = (if num_le v v then Some (v, v) else None)"
| "extent_step (Some (lo, hi)) v =
     Some (if num_lt v lo then v else lo, if num_lt hi v then v else hi)"

definition extent :: "number list \<Rightarrow> (number \<times> number) option" where
  "extent vs = foldl extent_step None vs"

text \<open>
  The \<^verbatim>\<open>parsed\<close> memo (lines 53 to 81): nothing until both row sets are there; then the
  normalised nodes, the events of the selected month and the number of days
  \<^verbatim>\<open>Math.max((ext[1] as number) || 30, 30)\<close>.
\<close>

definition parsed ::
  "(string \<Rightarrow> number) \<Rightarrow> (jsval \<Rightarrow> Date) \<Rightarrow> RawNode list option \<Rightarrow> RawEdge list option
     \<Rightarrow> string \<Rightarrow> Parsed option" where
  "parsed s2n newDate nodesCSV edgesCSV monthKey =
     (case nodesCSV of
        None \<Rightarrow> None
      | Some nrows \<Rightarrow>
         (case edgesCSV of
            None \<Rightarrow> None
          | Some erows \<Rightarrow>
             (let ns = map (normNode s2n) nrows;
                  edgesAll = map (normEdge s2n newDate) erows;
                  filtered = filter (\<lambda>e. fmtMonth (timestamp e) = monthKey) edgesAll;
                  ext = extent (map (\<lambda>e. getDate (timestamp e)) filtered);
                  ds = num_max (num_or (map_option snd ext) (Fin 30)) (Fin 30)
              in Some \<lparr>nodes = ns, edges = filtered, days = ds\<rparr>)))"

section \<open>The graph of the active window\<close>

text \<open>
  The loop of lines 93 to 97:
  \<^verbatim>\<open>if ((accumulate && d <= cutoff) || (!accumulate && d === cutoff)) activeEdges.push(e)\<close>
\<close>

fun activeLoop :: "EdgeEvent list \<Rightarrow> number \<Rightarrow> bool \<Rightarrow> EdgeEvent list \<Rightarrow> EdgeEvent list" where
  "activeLoop [] cutoff accumulate activeEdges = activeEdges"
| "activeLoop (e # es) cutoff accumulate activeEdges =
     (let d = getDate (timestamp e)
      in if (accumulate \<and> num_le d cutoff) \<or> (\<not> accumulate \<and> num_eq d cutoff)
         then activeLoop es cutoff accumulate (activeEdges @ [e])
         else activeLoop es cutoff accumulate activeEdges)"

text \<open>\<^verbatim>\<open>a < b\<close> on ids: an \<^verbatim>\<open>undefined\<close> side becomes \<^verbatim>\<open>NaN\<close> and the test is false.\<close>

definition id_lt :: "int option \<Rightarrow> int option \<Rightarrow> bool" where
  "id_lt a b = (case a of None \<Rightarrow> False | Some i \<Rightarrow> (case b of None \<Rightarrow> False | Some j \<Rightarrow> i < j))"

text \<open>\<^verbatim>\<open>const linkKey = (a, b) => (a < b ? `${a}|${b}` : `${b}|${a}`)\<close>\<close>

definition linkKey :: "int option \<Rightarrow> int option \<Rightarrow> string" where
  "linkKey a b =
     (if id_lt a b then template a @ ''|'' @ template b else template b @ ''|'' @ template a)"

text \<open>
  A \<^verbatim>\<open>Map\<close> keeps its keys in insertion order, and \<^verbatim>\<open>Array.from(linkMap.values())\<close> reads
  that order: the map is a list of pairs. \<^verbatim>\<open>set\<close> replaces the value of a key in place
  and appends a new key.
\<close>

definition map_get :: "('k \<times> 'v) list \<Rightarrow> 'k \<Rightarrow> 'v option" where
  "map_get m k = map_of m k"

fun map_set :: "'k \<Rightarrow> 'v \<Rightarrow> ('k \<times> 'v) list \<Rightarrow> ('k \<times> 'v) list" where
  "map_set k v [] = [(k, v)]"
| "map_set k v (p # ps) = (if fst p = k then (k, v) # ps else p # map_set k v ps)"

definition map_values :: "('k \<times> 'v) list \<Rightarrow> 'v list" where
  "map_values m = map snd m"

text \<open>\<^verbatim>\<open>e.weight || 1\<close>\<close>

definition contribution :: "EdgeEvent \<Rightarrow> int" where
  "contribution e = int_or (weight e) 1"

text \<open>
  One round of the loop of lines 101 to 107:
  \<^verbatim>\<open>const k = linkKey(e.source, e.target)
  const val = linkMap.get(k) || { source: e.source, target: e.target, total: 0, events: [] }
  val.total += e.weight || 1;  val.events.push(e);  linkMap.set(k, val)\<close>
\<close>

definition linkStep :: "EdgeEvent \<Rightarrow> (string \<times> LinkAgg) list \<Rightarrow> (string \<times> LinkAgg) list" where
  "linkStep e linkMap =
     (let k = linkKey (source e) (target e);
          val = (case map_get linkMap k of
                   Some v \<Rightarrow> v
                 | None \<Rightarrow> \<lparr>link_source = source e, link_target = target e, total = 0,
                            events = []\<rparr>);
          val' = val\<lparr>total := total val + contribution e, events := events val @ [e]\<rparr>
      in map_set k val' linkMap)"

fun linkLoop :: "EdgeEvent list \<Rightarrow> (string \<times> LinkAgg) list \<Rightarrow> (string \<times> LinkAgg) list" where
  "linkLoop [] linkMap = linkMap"
| "linkLoop (e # es) linkMap = linkLoop es (linkStep e linkMap)"

definition aggregate :: "EdgeEvent list \<Rightarrow> LinkAgg list" where
  "aggregate activeEdges = map_values (linkLoop activeEdges [])"

text \<open>
  The degree map of lines 110 to 114, a \<^verbatim>\<open>Map\<close> read only by key:
  \<^verbatim>\<open>deg.set(l.source, (deg.get(l.source) || 0) + l.total)
  deg.set(l.target, (deg.get(l.target) || 0) + l.total)\<close>
\<close>

fun degLoop :: "LinkAgg list \<Rightarrow> (int option \<rightharpoonup> int) \<Rightarrow> (int option \<rightharpoonup> int)" where
  "degLoop [] deg = deg"
| "degLoop (l # ls) deg =
     (let deg1 = deg(link_source l \<mapsto> int_or (deg (link_source l)) 0 + total l);
          deg2 = deg1(link_target l \<mapsto> int_or (deg1 (link_target l)) 0 + total l)
      in degLoop ls deg2)"

text \<open>\<^verbatim>\<open>nodes.map((n) => ({ ...n, degree: deg.get(n.id) || 0 }))\<close>\<close>

definition nodesWithDeg :: "NodeRec list \<Rightarrow> LinkAgg list \<Rightarrow> NodeRec list" where
  "nodesWithDeg ns links =
     (let deg = degLoop links Map.empty
      in map (\<lambda>n. n\<lparr>degree := int_or (deg (node_id n)) 0\<rparr>) ns)"

text \<open>The \<^verbatim>\<open>graph\<close> memo (lines 89 to 117).\<close>

definition graph :: "Parsed option \<Rightarrow> number \<Rightarrow> bool \<Rightarrow> Graph option" where
  "graph p day accumulate =
     (case p of
        None \<Rightarrow> None
      | Some pd \<Rightarrow>
         (let cutoff = day;
              activeEdges = activeLoop (edges pd) cutoff accumulate [];
              links = aggregate activeEdges
          in Some \<lparr>graph_nodes = nodesWithDeg (nodes pd) links, graph_links = links\<rparr>))"

section \<open>Playback\<close>

text \<open>
  The updater the interval passes to \<^verbatim>\<open>setDay\<close> (lines 245 to 250):
  \<^verbatim>\<open>(d) => { if (!parsed) return d
            const next = d + 1
            if (next > (parsed.days || daysInMonth)) return 1
            return next }\<close>
\<close>

definition tick :: "Parsed option \<Rightarrow> number \<Rightarrow> number \<Rightarrow> number" where
  "tick p daysInMonth d =
     (case p of
        None \<Rightarrow> d
      | Some pd \<Rightarrow>
         (let nxt = num_add d (Fin 1)
          in if num_lt (num_or (Some (days pd)) daysInMonth) nxt then Fin 1 else nxt))"

text \<open>
  The effect that follows a new value of the \<^verbatim>\<open>parsed\<close> memo (lines 83 to 87); it
  returns the \<^verbatim>\<open>daysInMonth\<close> state and the selected day:
  \<^verbatim>\<open>if (!parsed) return
  setDaysInMonth(parsed.days)
  if (day > parsed.days) setDay(parsed.days)\<close>
\<close>

definition syncDays :: "Parsed option \<Rightarrow> number \<Rightarrow> number \<Rightarrow> number \<times> number" where
  "syncDays p daysInMonth d =
     (case p of
        None \<Rightarrow> (daysInMonth, d)
      | Some pd \<Rightarrow> (days pd, if num_lt (days pd) d then days pd else d))"

section \<open>Hover picking\<close>

text \<open>\<^verbatim>\<open>Math.hypot(dx, dy)\<close> and \<^verbatim>\<open>n.x ?? 0\<close>.\<close>

definition hypot :: "real \<Rightarrow> real \<Rightarrow> real" where
  "hypot dx dy = sqrt (dx * dx + dy * dy)"

definition or_zero :: "real option \<Rightarrow> real" where
  "or_zero v = (case v of None \<Rightarrow> 0 | Some r \<Rightarrow> r)"

text \<open>
  The loop of \<^verbatim>\<open>pickNode\<close> (lines 466 to 471), with its two variables \<^verbatim>\<open>best\<close> and
  \<^verbatim>\<open>bestD\<close>: \<^verbatim>\<open>if (d < bestD) { bestD = d; best = n }\<close>
\<close>

fun pickLoop :: "real \<Rightarrow> real \<Rightarrow> NodeRec list \<Rightarrow> NodeRec option \<Rightarrow> real \<Rightarrow> NodeRec option" where
  "pickLoop px py [] best bestD = best"
| "pickLoop px py (n # ns) best bestD =
     (let dx = px - or_zero (pos_x n);
          dy = py - or_zero (pos_y n);
          d = hypot dx dy
      in if d < bestD then pickLoop px py ns (Some n) d else pickLoop px py ns best bestD)"

text \<open>
  \<^verbatim>\<open>function pickNode(x, y, nodes) { if (!nodes || nodes.length === 0) return null
     let best = null;  let bestD = 20;  for (const n of nodes) ...;  return best }\<close>
\<close>

definition pickNode :: "real \<Rightarrow> real \<Rightarrow> NodeRec list \<Rightarrow> NodeRec option" where
  "pickNode px py ns = (if ns = [] then None else pickLoop px py ns None 20)"

section \<open>Demo generation\<close>

text \<open>
  \<^verbatim>\<open>generateDemo\<close> (lines 283 to 319) draws from \<^verbatim>\<open>d3.randomLcg(0.42)\<close>. The generator is
  the parameter \<open>rnd\<close>, a step on its state that returns the drawn value with the
  next state. \<^verbatim>\<open>new Date(Date.UTC(y, m, d, h, min)).toISOString()\<close> is the parameter
  \<open>utcISO\<close>.
\<close>

definition demoN :: int where
  "demoN = 100"

definition teams :: "string list" where
  "teams = [''Platform'', ''Frontend'', ''Backend'', ''Mobile'', ''Design'', ''Data'',
            ''Growth'', ''DevOps'', ''Research'', ''Security'']"

definition types :: "string list" where
  "types = [''meeting'', ''code_review'', ''pair_programming'', ''design_review'',
            ''async_message'', ''doc_edit'', ''presentation'']"

text \<open>\<^verbatim>\<open>a % n\<close>: the remainder takes the sign of \<open>a\<close>.\<close>

definition js_rem :: "int \<Rightarrow> int \<Rightarrow> int" where
  "js_rem a n = sgn a * (\<bar>a\<bar> mod \<bar>n\<bar>)"

text \<open>\<^verbatim>\<open>xs[i]\<close> on an array of strings: \<^verbatim>\<open>undefined\<close> outside the array.\<close>

definition str_index :: "string list \<Rightarrow> int \<Rightarrow> jsval" where
  "str_index xs i = (if 0 \<le> i \<and> i < int (length xs) then JStr (xs ! nat i) else JUndefined)"

text \<open>The row of the person at index \<open>i\<close> of \<^verbatim>\<open>Array.from({ length: N }, (_, i) => ...)\<close>.\<close>

definition demoNode :: "nat \<Rightarrow> RawNode" where
  "demoNode i =
     \<lparr>raw_id = JNum (Fin (int i + 1)),
      raw_name = JStr (''User '' @ int_to_string (int i + 1)),
      raw_role = JStr (if i mod 5 = 0 then ''Engineer'' else ''Designer''),
      raw_team = JStr (teams ! (i mod length teams)),
      raw_location = JStr ''Remote'',
      raw_email = JStr (''user'' @ int_to_string (int i + 1) @ ''@example.com'')\<rparr>"

text \<open>
  The body of the loop over \<open>k\<close> (lines 297 to 313), the draws in the order the
  program makes them:
  \<^verbatim>\<open>const a = Math.floor(rnd() * N) + 1
  let b = Math.floor(rnd() * N) + 1
  if (b === a) b = (b % N) + 1
  const day = 1 + Math.floor(rnd() * 30)
  const ts = new Date(Date.UTC(2025, 8, day, Math.floor(rnd() * 24), Math.floor(rnd() * 60)))\<close>
  and then the type, the duration and the weight.
\<close>

definition demoEvent ::
  "('s \<Rightarrow> real \<times> 's) \<Rightarrow> (int \<Rightarrow> int \<Rightarrow> int \<Rightarrow> int \<Rightarrow> int \<Rightarrow> string) \<Rightarrow> nat \<Rightarrow> 's
     \<Rightarrow> RawEdge \<times> 's" where
  "demoEvent rnd utcISO k s0 =
     (let (r1, s1) = rnd s0;
          a = \<lfloor>r1 * real_of_int demoN\<rfloor> + 1;
          (r2, s2) = rnd s1;
          b0 = \<lfloor>r2 * real_of_int demoN\<rfloor> + 1;
          b = (if b0 = a then js_rem b0 demoN + 1 else b0);
          (r3, s3) = rnd s2;
          dy = 1 + \<lfloor>r3 * 30\<rfloor>;
          (r4, s4) = rnd s3;
          (r5, s5) = rnd s4;
          ts = utcISO 2025 8 dy \<lfloor>r4 * 24\<rfloor> \<lfloor>r5 * 60\<rfloor>;
          (r6, s6) = rnd s5;
          (r7, s7) = rnd s6;
          (r8, s8) = rnd s7
      in (\<lparr>raw_event_id = JNum (Fin (int k + 1)),
           raw_source = JNum (Fin a),
           raw_target = JNum (Fin b),
           raw_timestamp = JStr ts,
           raw_event_type = str_index types \<lfloor>r6 * real (length types)\<rfloor>,
           raw_duration_minutes = JNum (Fin (15 + \<lfloor>r7 * 90\<rfloor>)),
           raw_project = JStr ''Demo'',
           raw_weight = JNum (Fin (1 + \<lfloor>r8 * 3\<rfloor>)),
           raw_note = JStr []\<rparr>, s8))"

text \<open>\<^verbatim>\<open>for (let k = 0; k < 1200; k++) { ...; edges.push({...}) }\<close>\<close>

function demoLoop ::
  "('s \<Rightarrow> real \<times> 's) \<Rightarrow> (int \<Rightarrow> int \<Rightarrow> int \<Rightarrow> int \<Rightarrow> int \<Rightarrow> string) \<Rightarrow> nat \<Rightarrow> 's
     \<Rightarrow> RawEdge list \<Rightarrow> RawEdge list" where
  "demoLoop rnd utcISO k s es =
     (if k < 1200
      then (let (row, s') = demoEvent rnd utcISO k s
            in demoLoop rnd utcISO (k + 1) s' (es @ [row]))
      else es)"
  by pat_completeness auto
termination
  by (relation "measure (\<lambda>(rnd, utcISO, k, s, es). 1200 - k)") auto

declare demoLoop.simps [simp del]

text \<open>
  What \<^verbatim>\<open>generateDemo\<close> hands to \<^verbatim>\<open>setNodesCSV\<close>, \<^verbatim>\<open>setEdgesCSV\<close>, \<^verbatim>\<open>setMonthKey\<close> and
  \<^verbatim>\<open>setDay\<close>. The state \<open>s0\<close> is the generator as \<^verbatim>\<open>d3.randomLcg(0.42)\<close> returns it.
\<close>

record Demo =
  demo_nodes :: "RawNode list"
  demo_edges :: "RawEdge list"
  demo_monthKey :: string
  demo_day :: number

definition generateDemo ::
  "('s \<Rightarrow> real \<times> 's) \<Rightarrow> (int \<Rightarrow> int \<Rightarrow> int \<Rightarrow> int \<Rightarrow> int \<Rightarrow> string) \<Rightarrow> 's \<Rightarrow> Demo" where
  "generateDemo rnd utcISO s0 =
     \<lparr>demo_nodes = map demoNode [0..<nat demoN],
      demo_edges = demoLoop rnd utcISO 0 s0 [],
      demo_monthKey = ''2025-09'',
      demo_day = Fin 1\<rparr>"

section \<open>The specification's wording, and example data\<close>

text \<open>
  The month label as the specification words it: the year in four digits, a hyphen,
  the month (counted from 1) in two digits. It is compared with \<open>fmtMonth\<close> below.
\<close>

definition spec_month_label :: "nat \<Rightarrow> nat \<Rightarrow> string" where
  "spec_month_label y m =
     [digit_char (y div 1000 mod 10), digit_char (y div 100 mod 10),
      digit_char (y div 10 mod 10), digit_char (y mod 10), CHR ''-'',
      digit_char (m div 10 mod 10), digit_char (m mod 10)]"

text \<open>
  An event of September 2025 for the examples: source, target, weight and day of the
  month vary, the other fields are fixed.
\<close>

definition example_event :: "int option \<Rightarrow> int option \<Rightarrow> int option \<Rightarrow> int \<Rightarrow> EdgeEvent" where
  "example_event s t w d =
     \<lparr>event_id = Some 1, source = s, target = t, timestamp = LocalDate 2025 8 d,
      event_type = JStr ''meeting'', duration_minutes = Some 30, project = JStr ''Demo'',
      weight = w, note_text = JStr []\<rparr>"

text \<open>A row of the events file with the given source, target, weight and timestamp cells.\<close>

definition example_row :: "jsval \<Rightarrow> jsval \<Rightarrow> jsval \<Rightarrow> jsval \<Rightarrow> RawEdge" where
  "example_row s t w ts =
     \<lparr>raw_event_id = JNum (Fin 1), raw_source = s, raw_target = t, raw_timestamp = ts,
      raw_event_type = JStr ''meeting'', raw_duration_minutes = JNum (Fin 30),
      raw_project = JStr ''Demo'', raw_weight = w, raw_note = JUndefined\<rparr>"

text \<open>A person of the roster with the given id cell.\<close>

definition example_person :: "jsval \<Rightarrow> RawNode" where
  "example_person i =
     \<lparr>raw_id = i, raw_name = JStr ''Ada'', raw_role = JStr ''Engineer'',
      raw_team = JStr ''Platform'', raw_location = JStr ''Remote'',
      raw_email = JStr ''ada@example.com''\<rparr>"

text \<open>A simulated node for the examples: an id and a position.\<close>

definition example_node :: "int \<Rightarrow> real \<Rightarrow> real \<Rightarrow> NodeRec" where
  "example_node i px py =
     \<lparr>node_id = Some i, name = JStr ''Ada'', role = JStr ''Engineer'', team = JStr ''Platform'',
      location = JStr ''Remote'', email = JStr ''ada@example.com'', degree = 0,
      pos_x = Some px, pos_y = Some py, vel_x = Some 0, vel_y = Some 0\<rparr>"

section \<open>Notions of the statements and of the proofs\<close>

text \<open>
  The events that join the persons \<open>a\<close> and \<open>b\<close>, in either orientation, and the
  links that do.
\<close>

definition pair_events :: "int \<Rightarrow> int \<Rightarrow> EdgeEvent list \<Rightarrow> EdgeEvent list" where
  "pair_events a b es =
     filter (\<lambda>e. (source e = Some a \<and> target e = Some b) \<or>
                  (source e = Some b \<and> target e = Some a)) es"

definition joins :: "int \<Rightarrow> int \<Rightarrow> LinkAgg \<Rightarrow> bool" where
  "joins a b l \<longleftrightarrow>
     (link_source l = Some a \<and> link_target l = Some b) \<or>
     (link_source l = Some b \<and> link_target l = Some a)"

text \<open>
  What the links credit to the id \<open>p\<close>: the totals of the links whose source is \<open>p\<close>
  and the totals of the links whose target is \<open>p\<close>. A link from a person to the same
  person is in both sums.
\<close>

definition endpoint_total :: "int option \<Rightarrow> LinkAgg list \<Rightarrow> int" where
  "endpoint_total p links =
     sum_list (map total (filter (\<lambda>l. link_source l = p) links)) +
     sum_list (map total (filter (\<lambda>l. link_target l = p) links))"


text \<open>The straight-line distance from the pointer to a node, as \<open>pickLoop\<close> computes it.\<close>

definition node_dist :: "real \<Rightarrow> real \<Rightarrow> NodeRec \<Rightarrow> real" where
  "node_dist px py n = hypot (px - or_zero (pos_x n)) (py - or_zero (pos_y n))"

text \<open>The key of an event in the link map, and the pair of ids in the order of the key.\<close>

definition event_key :: "EdgeEvent \<Rightarrow> string" where
  "event_key e = linkKey (source e) (target e)"

definition canon :: "int option \<Rightarrow> int option \<Rightarrow> int option \<times> int option" where
  "canon a b = (if id_lt a b then (a, b) else (b, a))"

text \<open>
  The invariant of the aggregation loop after the events \<open>pr\<close>: the keys of the map
  are distinct; the link at a key holds exactly the events of \<open>pr\<close> with that key, in
  their order, has the sum of their contributions as its total and the endpoints of
  the first of them; and every event of \<open>pr\<close> has its key in the map.
\<close>

definition link_ok :: "EdgeEvent list \<Rightarrow> string \<Rightarrow> LinkAgg \<Rightarrow> bool" where
  "link_ok pr k l \<longleftrightarrow>
     events l = filter (\<lambda>e. event_key e = k) pr \<and>
     total l = sum_list (map contribution (events l)) \<and>
     events l \<noteq> [] \<and>
     link_source l = source (hd (events l)) \<and>
     link_target l = target (hd (events l))"

definition link_inv :: "EdgeEvent list \<Rightarrow> (string \<times> LinkAgg) list \<Rightarrow> bool" where
  "link_inv pr m \<longleftrightarrow>
     distinct (map fst m) \<and>
     (\<forall>p \<in> set m. link_ok pr (fst p) (snd p)) \<and>
     (\<forall>e \<in> set pr. event_key e \<in> fst ` set m)"

text \<open>The characters of a decimal numeral, and reading one back.\<close>

definition digits :: "char set" where
  "digits = set ''0123456789''"

definition parse_nat :: "string \<Rightarrow> nat" where
  "parse_nat s = foldl (\<lambda>a c. 10 * a + (of_char c - 48)) 0 s"

text \<open>
  A demo row whose source and target cells are two different numbers, both from 1 to
  100 when every draw lies in the interval from 0 to 1, 1 excluded.
\<close>

definition distinct_ends :: "('s \<Rightarrow> real \<times> 's) \<Rightarrow> RawEdge \<Rightarrow> bool" where
  "distinct_ends rnd row \<longleftrightarrow>
     (\<exists>a b. raw_source row = JNum (Fin a) \<and> raw_target row = JNum (Fin b) \<and> a \<noteq> b \<and>
        ((\<forall>s. 0 \<le> fst (rnd s) \<and> fst (rnd s) < 1) \<longrightarrow>
           1 \<le> a \<and> a \<le> 100 \<and> 1 \<le> b \<and> b \<le> 100))"

section \<open>Playback: the day after a tick\<close>

lemma getDate_shape: "getDate t = NaN \<or> (\<exists>i. getDate t = Fin i)"
  by (cases t) auto

lemma foldl_extent_finite:
  assumes "\<forall>v \<in> set vs. v = NaN \<or> (\<exists>i. v = Fin i)"
    and "case acc of None \<Rightarrow> True | Some (lo, hi) \<Rightarrow> \<exists>i. hi = Fin i"
  shows "case foldl extent_step acc vs of None \<Rightarrow> True | Some (lo, hi) \<Rightarrow> \<exists>i. hi = Fin i"
  using assms
proof (induction vs arbitrary: acc)
  case Nil
  then show ?case by simp
next
  case (Cons v vs)
  have "case extent_step acc v of None \<Rightarrow> True | Some (lo, hi) \<Rightarrow> \<exists>i. hi = Fin i"
    using Cons.prems by (cases acc; cases v) (auto simp: num_le_def num_eq_def split: if_splits)
  with Cons show ?case by simp
qed

lemma parsed_days:
  assumes "parsed s2n newDate nodesCSV edgesCSV monthKey = Some pd"
  shows "\<exists>n. days pd = Fin n \<and> 30 \<le> n"
proof -
  obtain nrows erows where n: "nodesCSV = Some nrows" and e: "edgesCSV = Some erows"
    using assms by (auto simp: parsed_def split: option.splits)
  define flt where
    "flt = filter (\<lambda>e. fmtMonth (timestamp e) = monthKey) (map (normEdge s2n newDate) erows)"
  define ext where "ext = extent (map (\<lambda>e. getDate (timestamp e)) flt)"
  have d: "days pd = num_max (num_or (map_option snd ext) (Fin 30)) (Fin 30)"
    using assms n e by (auto simp: parsed_def Let_def flt_def ext_def)
  have "case ext of None \<Rightarrow> True | Some (lo, hi) \<Rightarrow> \<exists>i. hi = Fin i"
    unfolding ext_def extent_def
    by (rule foldl_extent_finite) (use getDate_shape in auto)
  then have "\<exists>i. num_or (map_option snd ext) (Fin 30) = Fin i"
    by (cases ext) (auto simp: num_or_def)
  then obtain i where "num_or (map_option snd ext) (Fin 30) = Fin i"
    by blast
  then show ?thesis
    using d by (auto simp: num_max_def)
qed

text \<open>
  Claim C7. With a parsed dataset, the number of days is a finite number of at least
  30, so the fallback to the \<^verbatim>\<open>daysInMonth\<close> state is never taken; a tick on day \<open>d\<close>
  gives \<open>d + 1\<close>, unless \<open>d + 1\<close> exceeds the number of days, and then it gives 1. The
  \<^verbatim>\<open>daysInMonth\<close> state is that number of days once the effect has run, and a tick on
  that day gives 1.
\<close>

theorem tick_advances_and_wraps:
  assumes "parsed s2n newDate nodesCSV edgesCSV monthKey = Some pd"
  shows "\<exists>n. days pd = Fin n \<and> 30 \<le> n \<and>
           tick (Some pd) daysInMonth (Fin d) = (if n < d + 1 then Fin 1 else Fin (d + 1)) \<and>
           fst (syncDays (Some pd) daysInMonth (Fin d)) = Fin n \<and>
           tick (Some pd) (Fin n) (Fin n) = Fin 1"
proof -
  obtain n where n: "days pd = Fin n" "30 \<le> n"
    using parsed_days [OF assms] by blast
  then have "num_or (Some (days pd)) k = Fin n" for k
    by (simp add: num_or_def)
  then show ?thesis
    using n by (simp add: tick_def syncDays_def Let_def)
qed

theorem tick_advances_and_wraps_witness:
  "parsed (\<lambda>s. NaN) (\<lambda>v. LocalDate 2025 9 31) (Some [])
      (Some [\<lparr>raw_event_id = JNum (Fin 1), raw_source = JNum (Fin 3), raw_target = JNum (Fin 7),
              raw_timestamp = JStr ''2025-10-31T10:00:00'', raw_event_type = JStr ''meeting'',
              raw_duration_minutes = JNum (Fin 30), raw_project = JStr ''Demo'',
              raw_weight = JNum (Fin 2), raw_note = JUndefined\<rparr>]) ''2025-10''
     = Some \<lparr>nodes = [],
             edges = [\<lparr>event_id = Some 1, source = Some 3, target = Some 7,
                       timestamp = LocalDate 2025 9 31, event_type = JStr ''meeting'',
                       duration_minutes = Some 30, project = JStr ''Demo'', weight = Some 2,
                       note_text = JStr []\<rparr>],
             days = Fin 31\<rparr> \<and>
   tick (Some \<lparr>nodes = [],
             edges = [\<lparr>event_id = Some 1, source = Some 3, target = Some 7,
                       timestamp = LocalDate 2025 9 31, event_type = JStr ''meeting'',
                       duration_minutes = Some 30, project = JStr ''Demo'', weight = Some 2,
                       note_text = JStr []\<rparr>],
             days = Fin 31\<rparr>) (Fin 31) (Fin 30) = Fin 31 \<and>
   tick (Some \<lparr>nodes = [],
             edges = [\<lparr>event_id = Some 1, source = Some 3, target = Some 7,
                       timestamp = LocalDate 2025 9 31, event_type = JStr ''meeting'',
                       duration_minutes = Some 30, project = JStr ''Demo'', weight = Some 2,
                       note_text = JStr []\<rparr>],
             days = Fin 31\<rparr>) (Fin 31) (Fin 31) = Fin 1"
  (is "?p = Some ?pd \<and> _")
proof -
  have h: "?p = Some ?pd"
    by (simp add: parsed_def normEdge_def toNum_def ToNumber_def isFinite_def or_empty_def
        fmtMonth_def padStart_def int_to_string_def nat_to_string.simps digit_char_def
        extent_def num_le_def num_eq_def num_or_def num_max_def)
  obtain n where "days ?pd = Fin n"
    and "tick (Some ?pd) (Fin 31) (Fin 30) = (if n < 30 + 1 then Fin 1 else Fin (30 + 1))"
    and "tick (Some ?pd) (Fin n) (Fin n) = Fin 1"
    using tick_advances_and_wraps [OF h, of "Fin 31" 30] by blast
  then show ?thesis
    using h by simp
qed

text \<open>
  Claim C10. Without a parsed dataset a tick returns the day it was given: the day
  neither advances nor wraps, whatever the \<^verbatim>\<open>daysInMonth\<close> state holds.
\<close>

theorem tick_without_parsed:
  "tick None daysInMonth d = d"
  by (simp add: tick_def)

theorem tick_without_parsed_witness:
  "tick None (Fin 30) (Fin 30) = Fin 30 \<and> tick None (Fin 30) (Fin 7) = Fin 7"
  using tick_without_parsed [of "Fin 30" "Fin 30"] tick_without_parsed [of "Fin 30" "Fin 7"]
  by simp

section \<open>The active window\<close>

lemma activeLoop_filter:
  "activeLoop es cutoff acc out =
     out @ filter (\<lambda>e. (acc \<and> num_le (getDate (timestamp e)) cutoff) \<or>
                        (\<not> acc \<and> num_eq (getDate (timestamp e)) cutoff)) es"
  by (induction es arbitrary: out) (simp_all add: Let_def)

lemma num_le_getDate:
  "num_le (getDate t) (Fin c) = (case t of InvalidDate \<Rightarrow> False | LocalDate y m d \<Rightarrow> d \<le> c)"
  by (cases t) (auto simp: num_le_def num_eq_def)

lemma num_eq_getDate:
  "num_eq (getDate t) (Fin c) = (case t of InvalidDate \<Rightarrow> False | LocalDate y m d \<Rightarrow> d = c)"
  by (cases t) (auto simp: num_eq_def)

text \<open>
  Claim C3. For a cutoff day \<open>c\<close>, the loop keeps, in their order, exactly the events
  whose day of the month is at most \<open>c\<close> in accumulate mode, and exactly those whose day
  of the month is \<open>c\<close> in single-day mode. An event with an invalid timestamp has no day
  of the month and is kept in neither mode.
\<close>

theorem active_window:
  "activeLoop es (Fin c) True [] =
     filter (\<lambda>e. case timestamp e of InvalidDate \<Rightarrow> False | LocalDate y m d \<Rightarrow> d \<le> c) es \<and>
   activeLoop es (Fin c) False [] =
     filter (\<lambda>e. case timestamp e of InvalidDate \<Rightarrow> False | LocalDate y m d \<Rightarrow> d = c) es"
  by (simp add: activeLoop_filter num_le_getDate num_eq_getDate)

theorem active_window_witness:
  "activeLoop [example_event (Some 1) (Some 2) (Some 1) 1,
               example_event (Some 1) (Some 2) (Some 1) 5,
               example_event (Some 1) (Some 2) (Some 1) 10] (Fin 5) True []
     = [example_event (Some 1) (Some 2) (Some 1) 1, example_event (Some 1) (Some 2) (Some 1) 5] \<and>
   activeLoop [example_event (Some 1) (Some 2) (Some 1) 1,
               example_event (Some 1) (Some 2) (Some 1) 5,
               example_event (Some 1) (Some 2) (Some 1) 10] (Fin 5) False []
     = [example_event (Some 1) (Some 2) (Some 1) 5]"
  using active_window [of "[example_event (Some 1) (Some 2) (Some 1) 1,
                            example_event (Some 1) (Some 2) (Some 1) 5,
                            example_event (Some 1) (Some 2) (Some 1) 10]" 5]
  by (simp add: example_event_def)

section \<open>The month filter\<close>

lemma nat_to_string_1: "n < 10 \<Longrightarrow> nat_to_string n = [digit_char n]"
  by (simp add: nat_to_string.simps)

lemma nat_to_string_2:
  "10 \<le> n \<Longrightarrow> n < 100 \<Longrightarrow> nat_to_string n = [digit_char (n div 10), digit_char (n mod 10)]"
  by (subst nat_to_string.simps) (simp add: nat_to_string_1)

lemma nat_to_string_3:
  "100 \<le> n \<Longrightarrow> n < 1000 \<Longrightarrow>
   nat_to_string n = [digit_char (n div 100), digit_char (n div 10 mod 10), digit_char (n mod 10)]"
  by (subst nat_to_string.simps) (simp add: nat_to_string_2 div_mult2_eq [symmetric])

lemma nat_to_string_4:
  "1000 \<le> n \<Longrightarrow> n < 10000 \<Longrightarrow>
   nat_to_string n = [digit_char (n div 1000), digit_char (n div 100 mod 10),
                      digit_char (n div 10 mod 10), digit_char (n mod 10)]"
  by (subst nat_to_string.simps) (simp add: nat_to_string_3 div_mult2_eq [symmetric])

lemma fmtMonth_label:
  assumes "1000 \<le> y" "y \<le> 9999" "0 \<le> m" "m \<le> 11"
  shows "fmtMonth (LocalDate y m d) = spec_month_label (nat y) (nat (m + 1))"
proof -
  have y: "nat_to_string (nat y) =
             [digit_char (nat y div 1000), digit_char (nat y div 100 mod 10),
              digit_char (nat y div 10 mod 10), digit_char (nat y mod 10)]"
    using assms by (intro nat_to_string_4) auto
  have y1: "nat y div 1000 mod 10 = nat y div 1000"
    using assms by auto
  show ?thesis
  proof (cases "m + 1 < 10")
    case True
    then have "nat_to_string (nat (m + 1)) = [digit_char (nat (m + 1))]"
      using assms by (intro nat_to_string_1) auto
    moreover have "nat (m + 1) div 10 mod 10 = 0" "nat (m + 1) mod 10 = nat (m + 1)"
      using True assms by auto
    moreover have "digit_char 0 = CHR ''0''"
      by (simp add: digit_char_def)
    ultimately show ?thesis
      using assms y y1
      by (simp add: fmtMonth_def int_to_string_def padStart_def spec_month_label_def)
  next
    case False
    then have "nat_to_string (nat (m + 1)) =
                 [digit_char (nat (m + 1) div 10), digit_char (nat (m + 1) mod 10)]"
      using assms by (intro nat_to_string_2) auto
    moreover have "nat (m + 1) div 10 mod 10 = nat (m + 1) div 10"
      using False assms by auto
    ultimately show ?thesis
      using assms y y1
      by (simp add: fmtMonth_def int_to_string_def padStart_def spec_month_label_def)
  qed
qed

lemmas render_simps =
  fmtMonth_def int_to_string_def padStart_def nat_to_string.simps digit_char_def

text \<open>
  Claim C4, as the claim states it, fails on a year outside 1000 to 9999: the program
  prints the year as it is. The timestamp \<^verbatim>\<open>0999-09-01T00:00:00\<close> is a valid date of the
  year 999. Its label with a four-digit year is \<^verbatim>\<open>0999-09\<close>, but \<open>fmtMonth\<close> gives the
  six characters \<^verbatim>\<open>999-09\<close>, and under the month key \<^verbatim>\<open>0999-09\<close> the event is
  filtered out.
\<close>

theorem month_filter_counterexample:
  "spec_month_label 999 9 = ''0999-09'' \<and>
   fmtMonth (LocalDate 999 8 1) = ''999-09'' \<and>
   parsed (\<lambda>s. NaN) (\<lambda>v. LocalDate 999 8 1) (Some [])
      (Some [example_row (JNum (Fin 3)) (JNum (Fin 7)) (JNum (Fin 2))
               (JStr ''0999-09-01T00:00:00'')]) ''0999-09''
     = Some \<lparr>nodes = [], edges = [], days = Fin 30\<rparr>"
  by (simp add: spec_month_label_def parsed_def normEdge_def example_row_def render_simps
      extent_def num_or_def num_max_def)

text \<open>
  Claim C4, amended. The month-filtered events are exactly the normalised events, in
  their order, whose \<open>fmtMonth\<close> label equals the month key. For a valid timestamp
  with a year from 1000 to 9999 that label is the four-digit year, a hyphen and the
  two-digit month. An event of 2025-09-01 matches the key \<^verbatim>\<open>2025-09\<close> and no other key.
\<close>

theorem month_filter:
  "(\<exists>pd. parsed s2n newDate (Some nrows) (Some erows) monthKey = Some pd \<and>
         edges pd = filter (\<lambda>e. fmtMonth (timestamp e) = monthKey)
                      (map (normEdge s2n newDate) erows)) \<and>
   (1000 \<le> y \<and> y \<le> 9999 \<and> 0 \<le> m \<and> m \<le> 11 \<longrightarrow>
      fmtMonth (LocalDate y m d) = spec_month_label (nat y) (nat (m + 1))) \<and>
   (fmtMonth (LocalDate 2025 8 1) = monthKey \<longleftrightarrow> monthKey = ''2025-09'')"
proof -
  have "fmtMonth (LocalDate 2025 8 1) = ''2025-09''"
    by (simp add: render_simps)
  then show ?thesis
    using fmtMonth_label [of y m d] by (auto simp: parsed_def Let_def)
qed

theorem month_filter_witness:
  "parsed (\<lambda>s. NaN) (\<lambda>v. LocalDate 2025 8 1) (Some [])
      (Some [example_row (JNum (Fin 3)) (JNum (Fin 7)) (JNum (Fin 2))
               (JStr ''2025-09-01T00:00:00'')]) ''2025-09''
     = Some \<lparr>nodes = [], edges = [example_event (Some 3) (Some 7) (Some 2) 1], days = Fin 30\<rparr> \<and>
   fmtMonth (LocalDate 2025 8 1) = spec_month_label 2025 9 \<and>
   spec_month_label 2025 9 = ''2025-09''"
proof -
  have "fmtMonth (LocalDate 2025 8 1) = spec_month_label (nat 2025) (nat (8 + 1))"
    using month_filter [of "\<lambda>s. NaN" "\<lambda>v. LocalDate 2025 8 1" "[]" "[]" "''2025-09''" 2025 8 1]
    by simp
  then show ?thesis
    by (simp add: spec_month_label_def parsed_def normEdge_def example_row_def
        example_event_def toNum_def ToNumber_def isFinite_def or_empty_def render_simps
        extent_def num_le_def num_eq_def num_or_def num_max_def)
qed

section \<open>Numbers as text are unambiguous\<close>

lemma digit_cases: "d < 10 \<Longrightarrow> d \<in> {0, 1, 2, 3, 4, 5, 6, 7, 8, 9 :: nat}"
  by auto

lemma digit_char_code:
  assumes "d < 10"
  shows "of_char (digit_char d) = 48 + d"
  using digit_cases [OF assms] by (auto simp: digit_char_def)

lemma digit_char_in:
  assumes "d < 10"
  shows "digit_char d \<in> digits"
  using digit_cases [OF assms] by (auto simp: digit_char_def digits_def)

lemma parse_nat_to_string: "parse_nat (nat_to_string n) = n"
proof (induction n rule: nat_to_string.induct)
  case (1 n)
  show ?case
  proof (cases "n < 10")
    case True
    then show ?thesis
      by (subst nat_to_string.simps) (simp add: parse_nat_def digit_char_code)
  next
    case False
    then have "parse_nat (nat_to_string (n div 10)) = n div 10"
      using 1 by simp
    then show ?thesis
      using False
      by (subst nat_to_string.simps) (simp add: parse_nat_def digit_char_code)
  qed
qed

lemma nat_to_string_inj: "nat_to_string a = nat_to_string b \<Longrightarrow> a = b"
  by (metis parse_nat_to_string)

lemma nat_to_string_digits: "set (nat_to_string n) \<subseteq> digits"
proof (induction n rule: nat_to_string.induct)
  case (1 n)
  show ?case
  proof (cases "n < 10")
    case True
    then show ?thesis
      by (subst nat_to_string.simps) (simp add: digit_char_in)
  next
    case False
    then show ?thesis
      using 1 by (subst nat_to_string.simps) (simp add: digit_char_in)
  qed
qed

lemma minus_not_digit: "CHR ''-'' \<notin> digits"
  by (simp add: digits_def)

lemma int_to_string_inj:
  assumes "int_to_string a = int_to_string b"
  shows "a = b"
proof -
  have neg: "\<And>i j. i < 0 \<Longrightarrow> \<not> j < 0 \<Longrightarrow> int_to_string i \<noteq> int_to_string j"
  proof
    fix i j :: int
    assume "i < 0" "\<not> j < 0" and eq: "int_to_string i = int_to_string j"
    then have "CHR ''-'' # nat_to_string (nat (- i)) = nat_to_string (nat j)"
      by (simp add: int_to_string_def)
    then have "CHR ''-'' \<in> set (nat_to_string (nat j))"
      by (metis list.set_intros(1))
    then show False
      using nat_to_string_digits minus_not_digit by blast
  qed
  show ?thesis
  proof (cases "a < 0"; cases "b < 0")
    assume "a < 0" "b < 0"
    then show ?thesis
      using assms nat_to_string_inj [of "nat (- a)" "nat (- b)"] by (simp add: int_to_string_def)
  next
    assume "\<not> a < 0" "\<not> b < 0"
    then show ?thesis
      using assms nat_to_string_inj [of "nat a" "nat b"] by (simp add: int_to_string_def)
  next
    assume "a < 0" "\<not> b < 0"
    then show ?thesis using neg assms by blast
  next
    assume "\<not> a < 0" "b < 0"
    then show ?thesis using neg [of b a] assms by simp
  qed
qed

lemma int_to_string_chars: "set (int_to_string i) \<subseteq> insert CHR ''-'' digits"
  using nat_to_string_digits by (auto simp: int_to_string_def)

lemma template_inj: "template a = template b \<Longrightarrow> a = b"
proof (cases a; cases b)
  fix i assume a: "a = None" "b = Some i" and eq: "template a = template b"
  then have "CHR ''u'' # ''ndefined'' = int_to_string i"
    by (simp add: template_def)
  then have "CHR ''u'' \<in> set (int_to_string i)"
    by (metis list.set_intros(1))
  then show "a = b"
    using int_to_string_chars [of i] by (auto simp: digits_def)
next
  fix i assume a: "a = Some i" "b = None" and eq: "template a = template b"
  then have "CHR ''u'' # ''ndefined'' = int_to_string i"
    by (simp add: template_def)
  then have "CHR ''u'' \<in> set (int_to_string i)"
    by (metis list.set_intros(1))
  then show "a = b"
    using int_to_string_chars [of i] by (auto simp: digits_def)
qed (auto simp: template_def dest: int_to_string_inj)

lemma template_no_bar: "CHR ''|'' \<notin> set (template a)"
  using int_to_string_chars by (cases a) (auto simp: template_def digits_def)

lemma split_at_bar:
  assumes "c \<notin> set a" "c \<notin> set a'" "a @ c # b = a' @ c # b'"
  shows "a = a' \<and> b = b'"
  using assms
proof (induction a arbitrary: a')
  case Nil
  then show ?case by (cases a') auto
next
  case (Cons x xs)
  then show ?case by (cases a') auto
qed

lemma linkKey_eq_iff: "linkKey a b = linkKey c d \<longleftrightarrow> canon a b = canon c d"
proof -
  have "\<And>p q r s. template p @ ''|'' @ template q = template r @ ''|'' @ template s
          \<longleftrightarrow> p = r \<and> q = s"
    using split_at_bar [OF template_no_bar template_no_bar] template_inj by fastforce
  then show ?thesis
    by (simp add: linkKey_def canon_def)
qed

lemma canon_pair:
  "canon s t = canon (Some a) (Some b) \<longleftrightarrow>
     (s = Some a \<and> t = Some b) \<or> (s = Some b \<and> t = Some a)"
  by (cases s; cases t) (auto simp: canon_def id_lt_def)

lemma linkKey_pair:
  "linkKey s t = linkKey (Some a) (Some b) \<longleftrightarrow>
     (s = Some a \<and> t = Some b) \<or> (s = Some b \<and> t = Some a)"
  by (simp add: linkKey_eq_iff canon_pair)

lemma linkKey_canonical:
  "linkKey (Some a) (Some b) = int_to_string (min a b) @ ''|'' @ int_to_string (max a b)"
  by (simp add: linkKey_def id_lt_def template_def min_def max_def)

section \<open>The link map\<close>

lemma map_of_map_set: "map_of (map_set k v m) = (map_of m)(k \<mapsto> v)"
  by (induction m) auto

lemma keys_map_set:
  "map fst (map_set k v m) = (if k \<in> fst ` set m then map fst m else map fst m @ [k])"
  by (induction m) auto

lemma dom_map_set: "fst ` set (map_set k v m) = insert k (fst ` set m)"
  by (induction m) auto

lemma distinct_map_set: "distinct (map fst m) \<Longrightarrow> distinct (map fst (map_set k v m))"
  by (simp add: keys_map_set)

lemma set_map_set:
  "distinct (map fst m) \<Longrightarrow> set (map_set k v m) = insert (k, v) {p \<in> set m. fst p \<noteq> k}"
  by (induction m) (auto simp: rev_image_eqI)

lemma link_inv_empty: "link_inv [] []"
  by (simp add: link_inv_def)

lemma link_inv_step:
  assumes "link_inv pr m"
  shows "link_inv (pr @ [e]) (linkStep e m)"
proof -
  define k where "k = event_key e"
  define v where "v = (case map_get m k of Some v \<Rightarrow> v
      | None \<Rightarrow> \<lparr>link_source = source e, link_target = target e, total = 0, events = []\<rparr>)"
  define v' where "v' = v\<lparr>total := total v + contribution e, events := events v @ [e]\<rparr>"
  have step: "linkStep e m = map_set k v' m"
    by (simp add: linkStep_def Let_def k_def v_def v'_def event_key_def)
  have dist: "distinct (map fst m)"
    and ok: "\<And>p. p \<in> set m \<Longrightarrow> link_ok pr (fst p) (snd p)"
    and cov: "\<And>x. x \<in> set pr \<Longrightarrow> event_key x \<in> fst ` set m"
    using assms by (auto simp: link_inv_def)
  have new: "link_ok (pr @ [e]) k v'"
  proof (cases "map_of m k")
    case None
    then have "k \<notin> fst ` set m"
      by (simp add: map_of_eq_None_iff)
    then have "filter (\<lambda>x. event_key x = k) pr = []"
      using cov by (auto simp: filter_empty_conv)
    then show ?thesis
      using None by (simp add: link_ok_def v'_def v_def map_get_def k_def)
  next
    case (Some l)
    then have "(k, l) \<in> set m"
      by (rule map_of_SomeD)
    then have "link_ok pr k l"
      using ok by fastforce
    then show ?thesis
      using Some by (auto simp: link_ok_def v'_def v_def map_get_def k_def hd_append)
  qed
  have old: "link_ok (pr @ [e]) (fst p) (snd p)" if "p \<in> set m" "fst p \<noteq> k" for p
  proof -
    have f: "filter (\<lambda>x. event_key x = fst p) (pr @ [e]) = filter (\<lambda>x. event_key x = fst p) pr"
      using that(2) by (auto simp: k_def)
    show ?thesis
      using ok [OF that(1)] unfolding link_ok_def f .
  qed
  have "\<forall>p \<in> set (map_set k v' m). link_ok (pr @ [e]) (fst p) (snd p)"
    using new old by (auto simp: set_map_set [OF dist])
  moreover have "\<forall>x \<in> set (pr @ [e]). event_key x \<in> fst ` set (map_set k v' m)"
    using cov by (auto simp: dom_map_set k_def)
  ultimately show ?thesis
    using distinct_map_set [OF dist] by (simp add: link_inv_def step)
qed

lemma link_inv_loop: "link_inv pr m \<Longrightarrow> link_inv (pr @ es) (linkLoop es m)"
proof (induction es arbitrary: pr m)
  case Nil
  then show ?case by simp
next
  case (Cons e es)
  from Cons.IH [OF link_inv_step [OF Cons.prems, of e]] show ?case by simp
qed

lemma link_inv_final: "link_inv es (linkLoop es [])"
  using link_inv_loop [OF link_inv_empty, of es] by simp

lemma pair_events_key:
  "pair_events a b es = filter (\<lambda>e. event_key e = linkKey (Some a) (Some b)) es"
  by (simp add: pair_events_def event_key_def linkKey_pair)

lemma link_ok_key:
  assumes "link_ok pr k l"
  shows "linkKey (link_source l) (link_target l) = k"
proof -
  have "hd (events l) \<in> set (filter (\<lambda>e. event_key e = k) pr)"
    using assms by (metis link_ok_def hd_in_set)
  then have "event_key (hd (events l)) = k"
    by simp
  then show ?thesis
    using assms by (simp add: link_ok_def event_key_def)
qed

lemma filter_key_distinct:
  "distinct (map fst m) \<Longrightarrow>
   filter (\<lambda>p. fst p = k) m = (case map_of m k of None \<Rightarrow> [] | Some v \<Rightarrow> [(k, v)])"
proof (induction m)
  case Nil
  then show ?case by simp
next
  case (Cons p m)
  show ?case
  proof (cases "fst p = k")
    case True
    then have "k \<notin> fst ` set m"
      using Cons.prems by auto
    then have "filter (\<lambda>p. fst p = k) m = []"
      by (auto simp: filter_empty_conv)
    then show ?thesis
      using True by (cases p) simp
  next
    case False
    then show ?thesis
      using Cons by (cases p) auto
  qed
qed


lemmas graph_simps =
  graph_def aggregate_def map_values_def linkStep_def linkKey_def id_lt_def template_def
  map_get_def contribution_def int_or_def nodesWithDeg_def

text \<open>
  Claim C1. The key of two ids is the decimal numeral of the smaller, a bar and the
  numeral of the larger, whatever the order of the arguments. For every list of active
  events and every two ids \<open>a\<close> and \<open>b\<close>, the aggregated links that join \<open>a\<close> and
  \<open>b\<close> are: none when no active event joins them, and otherwise exactly one, whose
  events are all the active events between \<open>a\<close> and \<open>b\<close> in either orientation, whose
  total is the sum of their contributions, and whose endpoints are those of the first
  such event. The events 3 to 7 with weight 2 and 7 to 3 with weight 5 give the single
  link of 3 and 7 with total 7.
\<close>

theorem one_link_per_pair:
  "linkKey (Some a) (Some b) = int_to_string (min a b) @ ''|'' @ int_to_string (max a b) \<and>
   filter (joins a b) (aggregate es) =
     (case pair_events a b es of
        [] \<Rightarrow> []
      | e0 # rest \<Rightarrow>
          [\<lparr>link_source = source e0, link_target = target e0,
            total = sum_list (map contribution (pair_events a b es)),
            events = pair_events a b es\<rparr>])"
proof -
  define m where "m = linkLoop es []"
  define k where "k = linkKey (Some a) (Some b)"
  have inv: "link_inv es m"
    unfolding m_def by (rule link_inv_final)
  then have dist: "distinct (map fst m)"
    and ok: "\<And>p. p \<in> set m \<Longrightarrow> link_ok es (fst p) (snd p)"
    and cov: "\<And>x. x \<in> set es \<Longrightarrow> event_key x \<in> fst ` set m"
    by (auto simp: link_inv_def)
  have "joins a b (snd p) \<longleftrightarrow> fst p = k" if "p \<in> set m" for p
    using link_ok_key [OF ok [OF that]] linkKey_pair [of "link_source (snd p)" "link_target (snd p)" a b]
    by (simp add: joins_def k_def)
  then have "filter (joins a b \<circ> snd) m = filter (\<lambda>p. fst p = k) m"
    by (intro filter_cong) auto
  then have sel: "filter (joins a b) (aggregate es) =
      map snd (case map_of m k of None \<Rightarrow> [] | Some v \<Rightarrow> [(k, v)])"
    by (simp add: aggregate_def map_values_def m_def [symmetric] filter_map
        filter_key_distinct [OF dist])
  have pe: "pair_events a b es = filter (\<lambda>e. event_key e = k) es"
    by (simp add: pair_events_key k_def)
  have "filter (joins a b) (aggregate es) =
     (case pair_events a b es of
        [] \<Rightarrow> []
      | e0 # rest \<Rightarrow>
          [\<lparr>link_source = source e0, link_target = target e0,
            total = sum_list (map contribution (pair_events a b es)),
            events = pair_events a b es\<rparr>])"
  proof (cases "map_of m k")
    case None
    then have "k \<notin> fst ` set m"
      by (simp add: map_of_eq_None_iff)
    then have "pair_events a b es = []"
      using cov by (auto simp: pe filter_empty_conv)
    then show ?thesis
      using None sel by simp
  next
    case (Some l)
    then have "(k, l) \<in> set m"
      by (rule map_of_SomeD)
    then have "link_ok es k l"
      using ok by fastforce
    then have l: "events l = pair_events a b es" "events l \<noteq> []"
      "total l = sum_list (map contribution (events l))"
      "link_source l = source (hd (events l))" "link_target l = target (hd (events l))"
      unfolding link_ok_def pe by blast+
    then obtain e0 rest where e0: "pair_events a b es = e0 # rest"
      by (cases "pair_events a b es") auto
    then have "l = \<lparr>link_source = source e0, link_target = target e0,
            total = sum_list (map contribution (pair_events a b es)),
            events = pair_events a b es\<rparr>"
      using l by (cases l) simp
    then show ?thesis
      using Some sel e0 by simp
  qed
  then show ?thesis
    by (simp add: linkKey_canonical)
qed

theorem one_link_per_pair_witness:
  "filter (joins 3 7)
     (aggregate [example_event (Some 3) (Some 7) (Some 2) 4,
                 example_event (Some 7) (Some 3) (Some 5) 9])
     = [\<lparr>link_source = Some 3, link_target = Some 7, total = 7,
         events = [example_event (Some 3) (Some 7) (Some 2) 4,
                   example_event (Some 7) (Some 3) (Some 5) 9]\<rparr>] \<and>
   aggregate [example_event (Some 3) (Some 7) (Some 2) 4,
              example_event (Some 7) (Some 3) (Some 5) 9]
     = [\<lparr>link_source = Some 3, link_target = Some 7, total = 7,
         events = [example_event (Some 3) (Some 7) (Some 2) 4,
                   example_event (Some 7) (Some 3) (Some 5) 9]\<rparr>] \<and>
   linkKey (Some 7) (Some 3) = ''3|7''"
proof -
  have "filter (joins 3 7)
     (aggregate [example_event (Some 3) (Some 7) (Some 2) 4,
                 example_event (Some 7) (Some 3) (Some 5) 9])
     = [\<lparr>link_source = Some 3, link_target = Some 7, total = 7,
         events = [example_event (Some 3) (Some 7) (Some 2) 4,
                   example_event (Some 7) (Some 3) (Some 5) 9]\<rparr>]"
    using one_link_per_pair [of 3 7 "[example_event (Some 3) (Some 7) (Some 2) 4,
                 example_event (Some 7) (Some 3) (Some 5) 9]"]
    by (simp add: pair_events_def example_event_def contribution_def int_or_def)
  moreover have "linkKey (Some 7) (Some 3) = ''3|7''"
    using one_link_per_pair [of 7 3 "[]"] by (simp add: render_simps)
  ultimately show ?thesis
    by (simp add: graph_simps example_event_def render_simps)
qed

section \<open>The weight of an event\<close>

text \<open>
  Claim C5. An event contributes 1 when its weight cell is absent, reads as a
  non-finite number or is 0, and contributes the weight itself when that is another
  finite number; the contribution is never 0. A round of the aggregation loop adds exactly this contribution to the
  total of the event's link, starting from 0 for a new link, and the total of every
  aggregated link is the sum of the contributions of its events.
\<close>

theorem weight_default:
  "contribution (normEdge s2n newDate row) =
     (case ToNumber s2n (raw_weight row) of Fin w \<Rightarrow> if w = 0 then 1 else w | _ \<Rightarrow> 1) \<and>
   (\<exists>l'. map_get (linkStep e m) (linkKey (source e) (target e)) = Some l' \<and>
         total l' = (case map_get m (linkKey (source e) (target e)) of
                       None \<Rightarrow> 0 | Some l \<Rightarrow> total l) + contribution e) \<and>
   (\<forall>l \<in> set (aggregate es). total l = sum_list (map contribution (events l))) \<and>
   contribution e \<noteq> 0"
proof -
  have "contribution (normEdge s2n newDate row) =
     (case ToNumber s2n (raw_weight row) of Fin w \<Rightarrow> if w = 0 then 1 else w | _ \<Rightarrow> 1)"
    by (simp add: contribution_def normEdge_def toNum_def isFinite_def int_or_def
        split: number.splits)
  moreover have "\<exists>l'. map_get (linkStep e m) (linkKey (source e) (target e)) = Some l' \<and>
         total l' = (case map_get m (linkKey (source e) (target e)) of
                       None \<Rightarrow> 0 | Some l \<Rightarrow> total l) + contribution e"
    by (simp add: linkStep_def Let_def map_get_def map_of_map_set split: option.splits)
  moreover have "\<forall>l \<in> set (aggregate es). total l = sum_list (map contribution (events l))"
    using link_inv_final [of es] by (auto simp: aggregate_def map_values_def link_inv_def link_ok_def)
  moreover have "contribution e \<noteq> 0"
    by (simp add: contribution_def int_or_def split: option.splits)
  ultimately show ?thesis
    by blast
qed

theorem weight_default_witness:
  "contribution (normEdge (\<lambda>s. NaN) (\<lambda>v. InvalidDate)
      (example_row (JNum (Fin 3)) (JNum (Fin 7)) JUndefined JUndefined)) = 1 \<and>
   contribution (normEdge (\<lambda>s. NaN) (\<lambda>v. InvalidDate)
      (example_row (JNum (Fin 3)) (JNum (Fin 7)) (JNum PosInf) JUndefined)) = 1 \<and>
   contribution (normEdge (\<lambda>s. NaN) (\<lambda>v. InvalidDate)
      (example_row (JNum (Fin 3)) (JNum (Fin 7)) (JStr ''heavy'') JUndefined)) = 1 \<and>
   contribution (normEdge (\<lambda>s. NaN) (\<lambda>v. InvalidDate)
      (example_row (JNum (Fin 3)) (JNum (Fin 7)) (JNum (Fin 0)) JUndefined)) = 1 \<and>
   contribution (normEdge (\<lambda>s. NaN) (\<lambda>v. InvalidDate)
      (example_row (JNum (Fin 3)) (JNum (Fin 7)) (JNum (Fin 4)) JUndefined)) = 4 \<and>
   map total (aggregate [example_event (Some 3) (Some 7) None 1,
                         example_event (Some 3) (Some 7) (Some 0) 2,
                         example_event (Some 7) (Some 3) (Some 4) 3]) = [6]"
proof -
  have "map total (aggregate [example_event (Some 3) (Some 7) None 1,
                         example_event (Some 3) (Some 7) (Some 0) 2,
                         example_event (Some 7) (Some 3) (Some 4) 3]) = [6]"
    by (simp add: graph_simps example_event_def render_simps)
  then show ?thesis
    using weight_default [of "\<lambda>s. NaN" "\<lambda>v. InvalidDate"
        "example_row (JNum (Fin 3)) (JNum (Fin 7)) JUndefined JUndefined"]
      weight_default [of "\<lambda>s. NaN" "\<lambda>v. InvalidDate"
        "example_row (JNum (Fin 3)) (JNum (Fin 7)) (JNum PosInf) JUndefined"]
      weight_default [of "\<lambda>s. NaN" "\<lambda>v. InvalidDate"
        "example_row (JNum (Fin 3)) (JNum (Fin 7)) (JStr ''heavy'') JUndefined"]
      weight_default [of "\<lambda>s. NaN" "\<lambda>v. InvalidDate"
        "example_row (JNum (Fin 3)) (JNum (Fin 7)) (JNum (Fin 0)) JUndefined"]
      weight_default [of "\<lambda>s. NaN" "\<lambda>v. InvalidDate"
        "example_row (JNum (Fin 3)) (JNum (Fin 7)) (JNum (Fin 4)) JUndefined"]
    by (simp add: example_row_def ToNumber_def)
qed

section \<open>Degrees\<close>

lemma int_or_Some_0: "int_or (Some v) 0 = v"
  by (simp add: int_or_def)

lemma endpoint_total_Cons:
  "endpoint_total p (l # ls) =
     (if link_source l = p then total l else 0) + (if link_target l = p then total l else 0) +
     endpoint_total p ls"
  by (simp add: endpoint_total_def)

lemma degLoop_lookup:
  "int_or (degLoop ls deg p) 0 = int_or (deg p) 0 + endpoint_total p ls"
proof (induction ls arbitrary: deg)
  case Nil
  then show ?case by (simp add: endpoint_total_def)
next
  case (Cons l ls)
  show ?case
    by (simp add: Cons.IH Let_def endpoint_total_Cons int_or_Some_0)
qed

lemma nodesWithDeg_eq:
  "nodesWithDeg ns links = map (\<lambda>n. n\<lparr>degree := endpoint_total (node_id n) links\<rparr>) ns"
proof -
  have "int_or (degLoop links Map.empty p) 0 = endpoint_total p links" for p
    by (simp add: degLoop_lookup) (simp add: int_or_def)
  then show ?thesis
    by (simp add: nodesWithDeg_def Let_def)
qed

lemma endpoint_total_no_loops:
  assumes "\<forall>l \<in> set links. link_source l \<noteq> link_target l"
  shows "endpoint_total p links =
         sum_list (map total (filter (\<lambda>l. link_source l = p \<or> link_target l = p) links))"
  using assms by (induction links) (auto simp: endpoint_total_Cons endpoint_total_def)

lemma endpoint_total_none:
  assumes "\<forall>l \<in> set links. link_source l \<noteq> p \<and> link_target l \<noteq> p"
  shows "endpoint_total p links = 0"
  using assms by (induction links) (auto simp: endpoint_total_Cons endpoint_total_def)

text \<open>
  Claim C2. For every list of links, the degree written to a person is the sum of the
  totals of the links whose source is the person plus the sum of the totals of the
  links whose target is the person: a link gives its full total to each of its two
  endpoints. When no link joins a person to the same person, this is the sum of the
  totals of the links incident to the person; a person no link touches gets 0. With
  the single link of 3 and 7 with total 7, the persons 3 and 7 have degree 7 each.
\<close>

theorem degree_is_endpoint_total:
  "nodesWithDeg ns links = map (\<lambda>n. n\<lparr>degree := endpoint_total (node_id n) links\<rparr>) ns \<and>
   ((\<forall>l \<in> set links. link_source l \<noteq> link_target l) \<longrightarrow>
      endpoint_total p links =
        sum_list (map total (filter (\<lambda>l. link_source l = p \<or> link_target l = p) links))) \<and>
   ((\<forall>l \<in> set links. link_source l \<noteq> p \<and> link_target l \<noteq> p) \<longrightarrow> endpoint_total p links = 0)"
  using nodesWithDeg_eq endpoint_total_no_loops endpoint_total_none by blast

theorem degree_is_endpoint_total_witness:
  "nodesWithDeg [normNode (\<lambda>s. NaN) (example_person (JNum (Fin 3))),
                 normNode (\<lambda>s. NaN) (example_person (JNum (Fin 7))),
                 normNode (\<lambda>s. NaN) (example_person (JNum (Fin 9)))]
     [\<lparr>link_source = Some 3, link_target = Some 7, total = 7, events = []\<rparr>]
   = [normNode (\<lambda>s. NaN) (example_person (JNum (Fin 3)))\<lparr>degree := 7\<rparr>,
      normNode (\<lambda>s. NaN) (example_person (JNum (Fin 7)))\<lparr>degree := 7\<rparr>,
      normNode (\<lambda>s. NaN) (example_person (JNum (Fin 9)))\<lparr>degree := 0\<rparr>] \<and>
   endpoint_total (Some 3) [\<lparr>link_source = Some 3, link_target = Some 7, total = 7, events = []\<rparr>]
     = 7 \<and>
   endpoint_total (Some 9) [\<lparr>link_source = Some 3, link_target = Some 7, total = 7, events = []\<rparr>]
     = 0"
  using degree_is_endpoint_total
    [of "[normNode (\<lambda>s. NaN) (example_person (JNum (Fin 3))),
          normNode (\<lambda>s. NaN) (example_person (JNum (Fin 7))),
          normNode (\<lambda>s. NaN) (example_person (JNum (Fin 9)))]"
        "[\<lparr>link_source = Some 3, link_target = Some 7, total = 7, events = []\<rparr>]" "Some 9"]
  by (simp add: endpoint_total_def normNode_def example_person_def toNum_def ToNumber_def
      isFinite_def)

section \<open>Rows with malformed cells\<close>












section \<open>Hover picking: the nearest node within reach\<close>

lemma pickLoop_result:
  "(pickLoop px py ns best bestD = best \<and> (\<forall>n \<in> set ns. bestD \<le> node_dist px py n)) \<or>
   (\<exists>pre b post. ns = pre @ b # post \<and> pickLoop px py ns best bestD = Some b \<and>
      node_dist px py b < bestD \<and>
      (\<forall>n \<in> set pre. node_dist px py b < node_dist px py n) \<and>
      (\<forall>n \<in> set post. node_dist px py b \<le> node_dist px py n))"
proof (induction ns arbitrary: best bestD)
  case Nil
  then show ?case by simp
next
  case (Cons n ns)
  define d where "d = node_dist px py n"
  show ?case
  proof (cases "d < bestD")
    case True
    then have step: "pickLoop px py (n # ns) best bestD = pickLoop px py ns (Some n) d"
      by (simp add: Let_def d_def node_dist_def)
    from Cons.IH [of "Some n" d] show ?thesis
    proof
      assume "pickLoop px py ns (Some n) d = Some n \<and> (\<forall>m \<in> set ns. d \<le> node_dist px py m)"
      then have "n # ns = [] @ n # ns \<and> pickLoop px py (n # ns) best bestD = Some n \<and>
          node_dist px py n < bestD \<and>
          (\<forall>m \<in> set []. node_dist px py n < node_dist px py m) \<and>
          (\<forall>m \<in> set ns. node_dist px py n \<le> node_dist px py m)"
        using True step by (simp add: d_def)
      then show ?thesis by blast
    next
      assume "\<exists>pre b post. ns = pre @ b # post \<and> pickLoop px py ns (Some n) d = Some b \<and>
          node_dist px py b < d \<and>
          (\<forall>m \<in> set pre. node_dist px py b < node_dist px py m) \<and>
          (\<forall>m \<in> set post. node_dist px py b \<le> node_dist px py m)"
      then obtain pre b post where h: "ns = pre @ b # post"
        "pickLoop px py ns (Some n) d = Some b" "node_dist px py b < d"
        "\<forall>m \<in> set pre. node_dist px py b < node_dist px py m"
        "\<forall>m \<in> set post. node_dist px py b \<le> node_dist px py m"
        by blast
      then have "n # ns = (n # pre) @ b # post \<and> pickLoop px py (n # ns) best bestD = Some b \<and>
          node_dist px py b < bestD \<and>
          (\<forall>m \<in> set (n # pre). node_dist px py b < node_dist px py m) \<and>
          (\<forall>m \<in> set post. node_dist px py b \<le> node_dist px py m)"
        using True step by (simp add: d_def)
      then show ?thesis by blast
    qed
  next
    case False
    then have step: "pickLoop px py (n # ns) best bestD = pickLoop px py ns best bestD"
      by (simp add: Let_def d_def node_dist_def)
    from Cons.IH [of best bestD] show ?thesis
    proof
      assume "pickLoop px py ns best bestD = best \<and> (\<forall>m \<in> set ns. bestD \<le> node_dist px py m)"
      then show ?thesis
        using False step by (simp add: d_def)
    next
      assume "\<exists>pre b post. ns = pre @ b # post \<and> pickLoop px py ns best bestD = Some b \<and>
          node_dist px py b < bestD \<and>
          (\<forall>m \<in> set pre. node_dist px py b < node_dist px py m) \<and>
          (\<forall>m \<in> set post. node_dist px py b \<le> node_dist px py m)"
      then obtain pre b post where h: "ns = pre @ b # post"
        "pickLoop px py ns best bestD = Some b" "node_dist px py b < bestD"
        "\<forall>m \<in> set pre. node_dist px py b < node_dist px py m"
        "\<forall>m \<in> set post. node_dist px py b \<le> node_dist px py m"
        by blast
      then have "n # ns = (n # pre) @ b # post \<and> pickLoop px py (n # ns) best bestD = Some b \<and>
          node_dist px py b < bestD \<and>
          (\<forall>m \<in> set (n # pre). node_dist px py b < node_dist px py m) \<and>
          (\<forall>m \<in> set post. node_dist px py b \<le> node_dist px py m)"
        using False step by (simp add: d_def)
      then show ?thesis by blast
    qed
  qed
qed

lemma pickNode_None: "pickNode px py ns = None \<longleftrightarrow> (\<forall>n \<in> set ns. 20 \<le> node_dist px py n)"
proof (cases "ns = []")
  case True
  then show ?thesis by (simp add: pickNode_def)
next
  case False
  then have p: "pickNode px py ns = pickLoop px py ns None 20"
    by (simp add: pickNode_def)
  show ?thesis
    using pickLoop_result [of px py ns None 20] unfolding p by fastforce
qed

lemma pickNode_Some:
  assumes "pickNode px py ns = Some b"
  shows "\<exists>pre post. ns = pre @ b # post \<and> node_dist px py b < 20 \<and>
      (\<forall>n \<in> set pre. node_dist px py b < node_dist px py n) \<and>
      (\<forall>n \<in> set post. node_dist px py b \<le> node_dist px py n)"
proof -
  have p: "pickLoop px py ns None 20 = Some b"
    using assms by (auto simp: pickNode_def split: if_splits)
  show ?thesis
    using pickLoop_result [of px py ns None 20] unfolding p by auto
qed

lemma pickLoop_degree:
  "pickLoop px py (map (\<lambda>n. n\<lparr>degree := f n\<rparr>) ns) (map_option (\<lambda>n. n\<lparr>degree := f n\<rparr>) best) bestD
   = map_option (\<lambda>n. n\<lparr>degree := f n\<rparr>) (pickLoop px py ns best bestD)"
proof (induction ns arbitrary: best bestD)
  case Nil
  then show ?case by simp
next
  case (Cons n ns)
  show ?case
    using Cons.IH [of "Some n"] Cons.IH [of best] by (simp add: Let_def)
qed

lemma pickNode_degree:
  "pickNode px py (map (\<lambda>n. n\<lparr>degree := f n\<rparr>) ns)
     = map_option (\<lambda>n. n\<lparr>degree := f n\<rparr>) (pickNode px py ns)"
  using pickLoop_degree [of px py f ns None 20] by (simp add: pickNode_def)

lemma node_dist_coordinates:
  "node_dist px py n =
     sqrt ((px - (case pos_x n of None \<Rightarrow> 0 | Some v \<Rightarrow> v))\<^sup>2 +
           (py - (case pos_y n of None \<Rightarrow> 0 | Some v \<Rightarrow> v))\<^sup>2)"
  by (simp add: node_dist_def hypot_def or_zero_def power2_eq_square)

lemma sqrt_25: "sqrt 25 = 5"
  using real_sqrt_abs [of 5] by simp

lemma sqrt_100: "sqrt 100 = 10"
  using real_sqrt_abs [of 10] by simp

lemma sqrt_169: "sqrt 169 = 13"
  using real_sqrt_abs [of 13] by simp

lemma sqrt_361: "sqrt 361 = 19"
  using real_sqrt_abs [of 19] by simp

lemma sqrt_400: "sqrt 400 = 20"
  using real_sqrt_abs [of 20] by simp

lemma sqrt_441: "sqrt 441 = 21"
  using real_sqrt_abs [of 21] by simp

lemmas pick_simps =
  pickNode_def Let_def hypot_def or_zero_def example_node_def
  sqrt_25 sqrt_100 sqrt_169 sqrt_361 sqrt_400 sqrt_441

text \<open>
  Claim C8. The distance \<open>far n\<close> from the pointer \<open>(px, py)\<close> to a node is the
  straight-line distance in the plane: the square root of the sum of the squares of
  the two coordinate differences, an absent coordinate of the node counting as 0.
  \<open>pickNode\<close> returns no node exactly when every node is at distance 20 or more. A
  node it returns is in the list, at a distance below 20, strictly nearer than every
  node before it and at least as near as every node after it. The choice does not
  depend on the degree, which sets the size of a node. With the pointer at (100, 50),
  the node at (115.2, 61.4), at distance 19, is picked; the nodes at (116.8, 62.6), at
  distance 21, and at (112, 66), at distance 20, are not; straight above the pointer,
  the node at (100, 69) is picked and the node at (100, 71) is not.
\<close>

theorem hover_pick:
  fixes px py :: real and ns :: "NodeRec list"
  defines "far \<equiv> \<lambda>n. sqrt ((px - (case pos_x n of None \<Rightarrow> 0 | Some v \<Rightarrow> v))\<^sup>2 +
                           (py - (case pos_y n of None \<Rightarrow> 0 | Some v \<Rightarrow> v))\<^sup>2)"
  shows "(pickNode px py ns = None \<longleftrightarrow> (\<forall>n \<in> set ns. 20 \<le> far n)) \<and>
   (\<forall>b. pickNode px py ns = Some b \<longrightarrow>
      (\<exists>pre post. ns = pre @ b # post \<and> far b < 20 \<and>
         (\<forall>n \<in> set pre. far b < far n) \<and>
         (\<forall>n \<in> set post. far b \<le> far n))) \<and>
   pickNode px py (map (\<lambda>n. n\<lparr>degree := f n\<rparr>) ns)
     = map_option (\<lambda>n. n\<lparr>degree := f n\<rparr>) (pickNode px py ns)"
proof -
  have far: "far = node_dist px py"
    unfolding far_def by (rule ext) (simp add: node_dist_coordinates)
  show ?thesis
    unfolding far using pickNode_None pickNode_Some pickNode_degree by blast
qed

theorem hover_pick_witness:
  "pickNode 100 50 [example_node 1 115.2 61.4] = Some (example_node 1 115.2 61.4) \<and>
   pickNode 100 50 [example_node 1 116.8 62.6] = None \<and>
   pickNode 100 50 [example_node 1 112 66] = None \<and>
   pickNode 100 50 [example_node 1 100 69] = Some (example_node 1 100 69) \<and>
   pickNode 100 50 [example_node 1 100 71] = None \<and>
   pickNode 100 50 [example_node 1 105 62, example_node 2 103 54, example_node 3 94 58]
     = Some (example_node 2 103 54)"
proof -
  have "pickNode 100 50 [example_node 1 116.8 62.6] = None"
    using hover_pick [of 100 50 "[example_node 1 116.8 62.6]"]
    by (simp add: example_node_def power2_eq_square sqrt_441)
  moreover have "pickNode 100 50 [example_node 1 112 66] = None"
    using hover_pick [of 100 50 "[example_node 1 112 66]"]
    by (simp add: example_node_def power2_eq_square sqrt_400)
  moreover have "pickNode 100 50 [example_node 1 100 71] = None"
    using hover_pick [of 100 50 "[example_node 1 100 71]"]
    by (simp add: example_node_def power2_eq_square sqrt_441)
  moreover have "pickNode 100 50 [example_node 1 115.2 61.4] = Some (example_node 1 115.2 61.4)"
    by (simp add: pick_simps)
  moreover have "pickNode 100 50 [example_node 1 100 69] = Some (example_node 1 100 69)"
    by (simp add: pick_simps)
  moreover have "pickNode 100 50 [example_node 1 105 62, example_node 2 103 54, example_node 3 94 58]
     = Some (example_node 2 103 54)"
    by (simp add: pick_simps)
  ultimately show ?thesis by blast
qed

section \<open>Demo generation never draws a self-loop\<close>

lemma js_rem_remap: "js_rem a 100 + 1 \<noteq> a"
proof
  assume h: "js_rem a 100 + 1 = a"
  consider "a < 0" | "a = 0" | "0 < a" by linarith
  then show False
  proof cases
    case 1
    then have "js_rem a 100 = - ((- a) mod 100)"
      by (simp add: js_rem_def)
    moreover have "100 * ((- a) div 100) + (- a) mod 100 = - a"
      by (rule mult_div_mod_eq)
    ultimately have "100 * ((- a) div 100) = - 1"
      using h by linarith
    then have "(100::int) dvd - 1"
      by (metis dvd_triv_left)
    then show False by simp
  next
    case 2
    then show False using h by (simp add: js_rem_def)
  next
    case 3
    then have "js_rem a 100 = a mod 100"
      by (simp add: js_rem_def)
    moreover have "100 * (a div 100) + a mod 100 = a"
      by (rule mult_div_mod_eq)
    ultimately have "100 * (a div 100) = 1"
      using h by linarith
    then have "(100::int) dvd 1"
      by (metis dvd_triv_left)
    then show False by simp
  qed
qed

lemma js_rem_range: "1 \<le> a \<Longrightarrow> a \<le> 100 \<Longrightarrow> 1 \<le> js_rem a 100 + 1 \<and> js_rem a 100 + 1 \<le> 100"
  by (simp add: js_rem_def)

lemma draw_range:
  fixes r :: real
  assumes "0 \<le> r" "r < 1"
  shows "1 \<le> \<lfloor>r * 100\<rfloor> + 1 \<and> \<lfloor>r * 100\<rfloor> + 1 \<le> 100"
proof -
  have "0 \<le> r * 100" "r * 100 < 100"
    using assms by auto
  then have "0 \<le> \<lfloor>r * 100\<rfloor>" "\<lfloor>r * 100\<rfloor> < 100"
    by (simp_all add: floor_less_iff)
  then show ?thesis by simp
qed

lemma demoEvent_ends: "distinct_ends rnd (fst (demoEvent rnd utcISO k s))"
proof -
  define a where "a = \<lfloor>fst (rnd s) * 100\<rfloor> + 1"
  define b0 where "b0 = \<lfloor>fst (rnd (snd (rnd s))) * 100\<rfloor> + 1"
  define b where "b = (if b0 = a then js_rem b0 100 + 1 else b0)"
  have src: "raw_source (fst (demoEvent rnd utcISO k s)) = JNum (Fin a)"
    and tgt: "raw_target (fst (demoEvent rnd utcISO k s)) = JNum (Fin b)"
    by (simp_all add: demoEvent_def demoN_def Let_def case_prod_unfold a_def b_def b0_def)
  have ne: "a \<noteq> b"
    using js_rem_remap [of a] by (auto simp: b_def)
  have "1 \<le> a \<and> a \<le> 100 \<and> 1 \<le> b \<and> b \<le> 100" if "\<forall>s. 0 \<le> fst (rnd s) \<and> fst (rnd s) < 1"
  proof -
    have ra: "1 \<le> a \<and> a \<le> 100"
      unfolding a_def using that by (intro draw_range) auto
    have rb: "1 \<le> b0 \<and> b0 \<le> 100"
      unfolding b0_def using that by (intro draw_range) auto
    show ?thesis
      using ra rb js_rem_range [of b0] by (auto simp: b_def)
  qed
  then show ?thesis
    unfolding distinct_ends_def using src tgt ne by blast
qed

lemma demoLoop_result:
  "\<exists>new. demoLoop rnd utcISO k s es = es @ new \<and> length new = 1200 - k \<and>
         (\<forall>row \<in> set new. distinct_ends rnd row)"
proof (induction rnd utcISO k s es rule: demoLoop.induct)
  case (1 rnd utcISO k s es)
  show ?case
  proof (cases "k < 1200")
    case True
    obtain row s' where ev: "demoEvent rnd utcISO k s = (row, s')"
      by (cases "demoEvent rnd utcISO k s")
    then obtain new where new: "demoLoop rnd utcISO (k + 1) s' (es @ [row]) = (es @ [row]) @ new"
      "length new = 1200 - (k + 1)" "\<forall>r \<in> set new. distinct_ends rnd r"
      using 1 [OF True ev [symmetric] refl] by blast
    have row: "distinct_ends rnd row"
      using demoEvent_ends [of rnd utcISO k s] ev by simp
    have "demoLoop rnd utcISO k s es = es @ (row # new)"
      using True ev new(1) by (subst demoLoop.simps) simp
    moreover have "length (row # new) = 1200 - k"
      using True new(2) by simp
    moreover have "\<forall>r \<in> set (row # new). distinct_ends rnd r"
      using row new(3) by simp
    ultimately show ?thesis by blast
  next
    case False
    then show ?thesis
      by (subst demoLoop.simps) simp
  qed
qed

lemma demoLoop_first:
  "hd (demoLoop rnd utcISO 0 s0 []) = fst (demoEvent rnd utcISO 0 s0)"
proof -
  obtain row s' where ev: "demoEvent rnd utcISO 0 s0 = (row, s')"
    by (cases "demoEvent rnd utcISO 0 s0")
  obtain new where "demoLoop rnd utcISO (0 + 1) s' ([] @ [row]) = ([] @ [row]) @ new"
    using demoLoop_result [of rnd utcISO "0 + 1" s' "[] @ [row]"] by blast
  then show ?thesis
    using ev by (subst demoLoop.simps) simp
qed

text \<open>
  Claim C9. \<open>generateDemo\<close> produces 1200 event rows. In each, the source and the
  target are two different numbers, for every generator; both are from 1 to 100 when
  every draw is at least 0 and below 1; and the normalised event has a source
  different from its target. The remap of a target from 1 to 100 gives an id from 1 to
  100 other than the target.
\<close>

theorem demo_no_self_loop:
  "length (demo_edges (generateDemo rnd utcISO s0)) = 1200 \<and>
   (\<forall>row \<in> set (demo_edges (generateDemo rnd utcISO s0)).
      (\<exists>a b. raw_source row = JNum (Fin a) \<and> raw_target row = JNum (Fin b) \<and> a \<noteq> b \<and>
         ((\<forall>s. 0 \<le> fst (rnd s) \<and> fst (rnd s) < 1) \<longrightarrow>
            1 \<le> a \<and> a \<le> 100 \<and> 1 \<le> b \<and> b \<le> 100)) \<and>
      source (normEdge s2n newDate row) \<noteq> target (normEdge s2n newDate row)) \<and>
   (1 \<le> t \<and> t \<le> 100 \<longrightarrow>
      1 \<le> js_rem t demoN + 1 \<and> js_rem t demoN + 1 \<le> 100 \<and> js_rem t demoN + 1 \<noteq> t)"
proof -
  obtain new where new: "demoLoop rnd utcISO 0 s0 [] = [] @ new" "length new = 1200 - 0"
    "\<forall>row \<in> set new. distinct_ends rnd row"
    using demoLoop_result [of rnd utcISO 0 s0 "[]"] by blast
  have e: "demo_edges (generateDemo rnd utcISO s0) = new"
    using new(1) by (simp add: generateDemo_def)
  have "source (normEdge s2n newDate row) \<noteq> target (normEdge s2n newDate row)"
    if "distinct_ends rnd row" for row
    using that by (auto simp: distinct_ends_def normEdge_def toNum_def ToNumber_def isFinite_def)
  then show ?thesis
    using new(2,3) js_rem_remap [of t] js_rem_range [of t]
    unfolding e distinct_ends_def demoN_def by auto
qed

theorem demo_no_self_loop_witness:
  "length (demo_edges (generateDemo (\<lambda>s::unit. (0, s)) (\<lambda>y m d h mi. ''2025-09-01T00:00:00.000Z'') ())) = 1200 \<and>
   raw_source (hd (demo_edges (generateDemo (\<lambda>s::unit. (0, s)) (\<lambda>y m d h mi. ''2025-09-01T00:00:00.000Z'') ()))) = JNum (Fin 1) \<and>
   raw_target (hd (demo_edges (generateDemo (\<lambda>s::unit. (0, s)) (\<lambda>y m d h mi. ''2025-09-01T00:00:00.000Z'') ()))) = JNum (Fin 2) \<and>
   js_rem 100 demoN + 1 = 1"
proof -
  have "raw_source (hd (demo_edges (generateDemo (\<lambda>s::unit. (0, s)) (\<lambda>y m d h mi. ''2025-09-01T00:00:00.000Z'') ()))) = JNum (Fin 1) \<and>
   raw_target (hd (demo_edges (generateDemo (\<lambda>s::unit. (0, s)) (\<lambda>y m d h mi. ''2025-09-01T00:00:00.000Z'') ()))) = JNum (Fin 2)"
    by (simp add: generateDemo_def demoLoop_first demoEvent_def demoN_def js_rem_def
        case_prod_unfold Let_def)
  then show ?thesis
    using demo_no_self_loop [of "\<lambda>s::unit. (0, s)" "\<lambda>y m d h mi. ''2025-09-01T00:00:00.000Z''" "()" _ _ 100]
    by (simp add: demoN_def js_rem_def)
qed

end
